theory Spec2Isabelle
  imports Complex_Main "HOL-Library.Word"
begin

section \<open>Python floats: IEEE 754 binary64\<close>

text \<open>
  \<^verbatim>\<open>app/processor.py\<close> computes with Python \<^verbatim>\<open>float\<close>s. A CPython float is an
  IEEE 754 binary64 number: one sign bit, eleven bits of biased exponent and 52 bits of
  fraction. The three fields are kept as they lie in memory, so that every value of the
  type is a float that Python can hold and no well-formedness condition is needed.
\<close>

datatype double = Double (dsign: bool) (dexpo: "11 word") (dfrac: "52 word")

definition biased :: "double \<Rightarrow> nat" where
  "biased x = unat (dexpo x)"

definition fraction :: "double \<Rightarrow> nat" where
  "fraction x = unat (dfrac x)"

definition is_nan :: "double \<Rightarrow> bool" where
  "is_nan x = (biased x = 2047 \<and> fraction x \<noteq> 0)"

definition is_inf :: "double \<Rightarrow> bool" where
  "is_inf x = (biased x = 2047 \<and> fraction x = 0)"

definition is_finite :: "double \<Rightarrow> bool" where
  "is_finite x = (biased x < 2047)"

text \<open>
  A finite float is \<open>(-1)^dsign * mantissa * 2^exponent\<close>: the hidden bit is set for the
  normal numbers (biased exponent 1 to 2046) and clear for zero and the subnormals
  (biased exponent 0, read as 1).
\<close>

definition mantissa :: "double \<Rightarrow> nat" where
  "mantissa x = (if biased x = 0 then fraction x else 2 ^ 52 + fraction x)"

definition exponent :: "double \<Rightarrow> int" where
  "exponent x = int (max (biased x) 1) - 1075"

definition signed_mantissa :: "double \<Rightarrow> int" where
  "signed_mantissa x = (if dsign x then - int (mantissa x) else int (mantissa x))"

definition infinity :: "bool \<Rightarrow> double" where
  "infinity s = Double s 2047 0"

definition quiet_nan :: double where
  "quiet_nan = Double False 2047 (2 ^ 51)"

definition float_neg :: "double \<Rightarrow> double" where
  "float_neg x = Double (\<not> dsign x) (dexpo x) (dfrac x)"

subsection \<open>Rounding to nearest, ties to even\<close>

text \<open>\<^verbatim>\<open>int.bit_length\<close>: the number of binary digits of a natural number.\<close>

fun bit_length :: "nat \<Rightarrow> nat" where
  "bit_length n = (if n = 0 then 0 else Suc (bit_length (n div 2)))"

declare bit_length.simps [simp del]

text \<open>
  \<open>floor_log2 n d\<close> is the integer \<open>k\<close> with \<open>2^k \<le> n/d < 2^(k+1)\<close>, for positive
  \<open>n\<close> and \<open>d\<close>: the difference of the bit lengths, or one less. A power of two
  with an integer exponent \<open>k\<close> is written as the pair \<open>2 ^ nat k\<close> (the numerator)
  and \<open>2 ^ nat (- k)\<close> (the denominator), one of which is 1.
\<close>

definition floor_log2 :: "nat \<Rightarrow> nat \<Rightarrow> int" where
  "floor_log2 n d =
     (let k = int (bit_length n) - int (bit_length d)
      in if d * 2 ^ nat k \<le> n * 2 ^ nat (- k) then k else k - 1)"

text \<open>
  \<open>rhe_div n d\<close> is the quotient \<open>n/d\<close> rounded to the nearest integer, a tie going to
  the even neighbour.
\<close>

definition rhe_div :: "nat \<Rightarrow> nat \<Rightarrow> nat" where
  "rhe_div n d =
     (let q = n div d; r = n mod d
      in if 2 * r < d then q
         else if d < 2 * r then q + 1
         else if even q then q else q + 1)"

text \<open>
  \<open>round_to_double s n d\<close> is the float nearest to the rational \<open>(-1)^s * n/d\<close>
  (\<open>d > 0\<close>), ties to even, as the hardware and CPython's \<^verbatim>\<open>strtod\<close> round. The
  mantissa has 53 bits where the exponent allows it, and fewer in the subnormal range
  (exponent \<open>-1074\<close>). Adding the rounded mantissa to the exponent field shifted into
  place carries a mantissa of \<open>2^53\<close> into the next exponent, and a subnormal that
  rounds up to \<open>2^52\<close> into the first normal number; a result beyond the largest
  finite float is an infinity.
\<close>

definition round_to_double :: "bool \<Rightarrow> nat \<Rightarrow> nat \<Rightarrow> double" where
  "round_to_double s n d =
     (if n = 0 then Double s 0 0
      else
        let e = max (floor_log2 n d - 52) (- 1074);
            m = rhe_div (n * 2 ^ nat (- e)) (d * 2 ^ nat e);
            bits = nat (e + 1074) * 2 ^ 52 + m
        in if 2047 * 2 ^ 52 \<le> bits then infinity s
           else Double s (of_nat (bits div 2 ^ 52)) (of_nat (bits mod 2 ^ 52)))"

text \<open>
  A decimal literal of the source text, \<open>digits / 10^scale\<close>: Python's compiler
  converts it to the nearest float. \<^verbatim>\<open>0.05\<close> is \<open>float_literal 5 2\<close>.
\<close>

definition float_literal :: "nat \<Rightarrow> nat \<Rightarrow> double" where
  "float_literal digits scale = round_to_double False digits (10 ^ scale)"

subsection \<open>Arithmetic and comparison\<close>

text \<open>
  \<^verbatim>\<open>x + y\<close>: a NaN operand gives a NaN, infinities of opposite sign give a NaN, an
  infinity absorbs a finite operand, and two finite operands give their exact sum
  rounded to nearest. The exact sum is the integer \<open>a\<close> times \<open>2^e\<close>, where \<open>e\<close> is
  the smaller exponent of the operands that are not zero (a zero adds nothing, whatever
  its exponent). An exact sum of zero is \<open>-0.0\<close> only when both operands are
  negative (zeros). Every NaN result is the one quiet NaN: Python shows no payload.
\<close>

definition float_add :: "double \<Rightarrow> double \<Rightarrow> double" where
  "float_add x y =
     (if is_nan x \<or> is_nan y then quiet_nan
      else if is_inf x then (if is_inf y \<and> dsign x \<noteq> dsign y then quiet_nan else x)
      else if is_inf y then y
      else
        let e = (if mantissa x = 0 then exponent y
                 else if mantissa y = 0 then exponent x
                 else min (exponent x) (exponent y));
            a = signed_mantissa x * 2 ^ nat (exponent x - e)
              + signed_mantissa y * 2 ^ nat (exponent y - e)
        in if a = 0 then Double (dsign x \<and> dsign y) 0 0
           else round_to_double (a < 0) (nat \<bar>a\<bar> * 2 ^ nat e) (2 ^ nat (- e)))"

text \<open>\<^verbatim>\<open>x - y\<close> is \<^verbatim>\<open>x + (-y)\<close> in IEEE 754, signed zeros included.\<close>

definition float_sub :: "double \<Rightarrow> double \<Rightarrow> double" where
  "float_sub x y = float_add x (float_neg y)"

text \<open>\<^verbatim>\<open>x > y\<close>: false when an operand is a NaN; the two zeros are equal.\<close>

definition float_gt :: "double \<Rightarrow> double \<Rightarrow> bool" where
  "float_gt x y =
     (if is_nan x \<or> is_nan y then False
      else if is_inf x then \<not> dsign x \<and> \<not> (is_inf y \<and> \<not> dsign y)
      else if is_inf y then dsign y
      else
        let e = min (exponent x) (exponent y)
        in signed_mantissa y * 2 ^ nat (exponent y - e)
         < signed_mantissa x * 2 ^ nat (exponent x - e))"

section \<open>Python values and exceptions\<close>

text \<open>
  The values of a message (\<^verbatim>\<open>dict[str, Any]\<close>) are the values a deserialised payload
  holds: \<^verbatim>\<open>None\<close>, booleans, unbounded integers, floats, strings, lists and
  dictionaries.
\<close>

datatype pyval =
    PyNone
  | PyBool bool
  | PyInt int
  | PyFloat double
  | PyStr string
  | PyList "pyval list"
  | PyDict "(string \<times> pyval) list"

type_synonym message = "string \<rightharpoonup> pyval"

text \<open>
  The exceptions that can leave the two functions, each with its message. The messages
  of the built-in conversions are cut before the part that prints the offending value.
\<close>

datatype error = ValueError string | TypeError string | OverflowError string

subsection \<open>The built-in functions \<^verbatim>\<open>float\<close> and \<^verbatim>\<open>round\<close>\<close>

text \<open>
  \<^verbatim>\<open>float(n)\<close> for an integer: the nearest float, and \<^verbatim>\<open>OverflowError\<close> when the
  integer rounds beyond the largest finite float.
\<close>

definition int_to_float :: "int \<Rightarrow> error + double" where
  "int_to_float n =
     (let r = round_to_double (n < 0) (nat \<bar>n\<bar>) 1
      in if is_inf r then Inl (OverflowError ''int too large to convert to float'')
         else Inr r)"

text \<open>
  \<^verbatim>\<open>float(v)\<close>. A float is returned as it is, an integer is converted, a boolean is
  the integer 0 or 1, a string is parsed, and every other value is a \<^verbatim>\<open>TypeError\<close>.
  The parser of numeric strings belongs to the interpreter, not to this repository: it
  is the parameter \<open>float_of_string\<close>, \<open>None\<close> where the string is no number.
\<close>

fun py_float :: "(string \<Rightarrow> double option) \<Rightarrow> pyval \<Rightarrow> error + double" where
  "py_float float_of_string (PyFloat x) = Inr x"
| "py_float float_of_string (PyInt n) = int_to_float n"
| "py_float float_of_string (PyBool b) = int_to_float (if b then 1 else 0)"
| "py_float float_of_string (PyStr s) =
     (case float_of_string s of
        None \<Rightarrow> Inl (ValueError ''could not convert string to float'')
      | Some x \<Rightarrow> Inr x)"
| "py_float float_of_string PyNone =
     Inl (TypeError ''float() argument must be a string or a real number'')"
| "py_float float_of_string (PyList xs) =
     Inl (TypeError ''float() argument must be a string or a real number'')"
| "py_float float_of_string (PyDict kvs) =
     Inl (TypeError ''float() argument must be a string or a real number'')"

text \<open>
  \<^verbatim>\<open>round(x, ndigits)\<close> for a float and \<open>ndigits \<ge> 0\<close> (the source passes 4). A NaN
  or an infinity is returned as it is, and so is every float when \<open>ndigits\<close> exceeds
  323. Otherwise CPython prints the exact value of \<open>x\<close> with \<open>ndigits\<close> decimals,
  correctly rounded and ties to even, and reads the decimal string back as the nearest
  float, keeping the sign (so \<^verbatim>\<open>round(-0.00001, 4)\<close> is \<^verbatim>\<open>-0.0\<close>); it raises
  \<^verbatim>\<open>OverflowError\<close> when reading back overflows. Here \<open>n\<close> is the decimal string
  read as an integer: the exact value \<open>mantissa * 2^exponent\<close> times \<open>10^ndigits\<close>,
  rounded to an integer.
\<close>

definition float_round :: "double \<Rightarrow> nat \<Rightarrow> error + double" where
  "float_round x ndigits =
     (if \<not> is_finite x then Inr x
      else if 323 < ndigits then Inr x
      else
        let p = 10 ^ ndigits;
            n = rhe_div (mantissa x * p * 2 ^ nat (exponent x)) (2 ^ nat (- exponent x));
            r = round_to_double (dsign x) n p
        in if is_inf r then Inl (OverflowError ''rounded value too large to represent'')
           else Inr r)"

subsection \<open>The log\<close>

text \<open>
  The module's logger (\<^verbatim>\<open>setup_logger(__name__)\<close>) is not part of \<^verbatim>\<open>processor.py\<close>.
  Each call to it is an entry appended to a trace that the functions return beside
  their result: the level, the format string (without its leading pictograph) and the
  arguments.
\<close>

datatype level = DEBUG | INFO | ERROR

datatype log_arg = ArgVal pyval | ArgDict message

type_synonym log_entry = "level \<times> string \<times> log_arg list"

text \<open>\<^verbatim>\<open>message.get(key, default)\<close>.\<close>

definition dict_get :: "message \<Rightarrow> string \<Rightarrow> pyval \<Rightarrow> pyval" where
  "dict_get m k dflt = (case m k of None \<Rightarrow> dflt | Some v \<Rightarrow> v)"

section \<open>The validator\<close>

text \<open>
  \<^verbatim>\<open>validate_input_message\<close>, lines 17 to 34. The schema predicate
  \<^verbatim>\<open>validate_message_schema\<close> is imported from \<^verbatim>\<open>app.utils.validate_data\<close>, which
  is not among the sources: it is a parameter.
\<close>

definition validate_input_message ::
  "(message \<Rightarrow> bool) \<Rightarrow> message \<Rightarrow> log_entry list \<times> (error + message)" where
  "validate_input_message validate_message_schema message =
     (let trace = [(DEBUG, ''Validating message schema...'', [])]
      in if \<not> validate_message_schema message
         then (trace @ [(ERROR, ''Invalid message schema: %s'', [ArgDict message])],
               Inl (ValueError ''Invalid message format''))
         else (trace, Inr message))"

section \<open>The scorer\<close>

text \<open>
  \<^verbatim>\<open>compute_fundamental_signal\<close>, lines 37 to 63. The three conversions run in the
  order of the source and the first that raises ends the call, before anything is
  logged. \<^verbatim>\<open>{**message, **result}\<close> is the map \<open>message ++ result\<close>, in which the
  entries of \<open>result\<close> win.
\<close>

definition compute_fundamental_signal ::
  "(string \<Rightarrow> double option) \<Rightarrow> message \<Rightarrow> log_entry list \<times> (error + message)" where
  "compute_fundamental_signal float_of_string message =
     (let symbol = dict_get message ''symbol'' (PyStr ''UNKNOWN'')
      in case py_float float_of_string
                (dict_get message ''eps'' (PyFloat (float_literal 20 1))) of
           Inl err \<Rightarrow> ([], Inl err)
         | Inr eps \<Rightarrow>
       (case py_float float_of_string
                (dict_get message ''revenue_growth'' (PyFloat (float_literal 5 2))) of
           Inl err \<Rightarrow> ([], Inl err)
         | Inr revenue_growth \<Rightarrow>
       (case py_float float_of_string
                (dict_get message ''debt_to_equity'' (PyFloat (float_literal 4 1))) of
           Inl err \<Rightarrow> ([], Inl err)
         | Inr debt_to_equity \<Rightarrow>
           let trace = [(INFO, ''Computing fundamental signal for %s'', [ArgVal symbol])];
               score = float_sub (float_add eps revenue_growth) debt_to_equity;
               signal = (if float_gt score (float_literal 15 1) then ''BUY'' else ''HOLD'')
           in case float_round score 4 of
                Inl err \<Rightarrow> (trace, Inl err)
              | Inr rounded \<Rightarrow>
                  let result = [''fundamental_score'' \<mapsto> PyFloat rounded,
                                ''fundamental_signal'' \<mapsto> PyStr signal]
                  in (trace @ [(DEBUG, ''Fundamental result for %s: %s'',
                                [ArgVal symbol, ArgDict result])],
                      Inr (message ++ result)))))"

section \<open>Notions of the specification\<close>

text \<open>
  The real number a finite float stands for. It gives the comparisons and the rounding
  of the specification a meaning that does not depend on the bit patterns.
\<close>

definition float_value :: "double \<Rightarrow> real" where
  "float_value x = (if dsign x then - 1 else 1) * real (mantissa x) * 2 powi exponent x"

text \<open>
  \<open>x > t\<close> for a float \<open>x\<close> and a real threshold \<open>t\<close>, as the specification reads
  it: a NaN exceeds nothing, the positive infinity exceeds every threshold, the negative
  infinity none, and a finite float is compared by its value.
\<close>

definition float_exceeds :: "double \<Rightarrow> real \<Rightarrow> bool" where
  "float_exceeds x t =
     (\<not> is_nan x \<and> (if is_inf x then \<not> dsign x else t < float_value x))"

text \<open>
  Rounding half to even, as the specification words it: \<open>n\<close> is an integer nearest
  to \<open>x\<close>, and the even one when \<open>x\<close> lies halfway between two integers.
\<close>

definition is_round_half_even :: "real \<Rightarrow> int \<Rightarrow> bool" where
  "is_round_half_even x n =
     (\<bar>of_int n - x\<bar> \<le> 1 / 2 \<and> (\<bar>of_int n - x\<bar> = 1 / 2 \<longrightarrow> even n))"

text \<open>
  A numeric field as the specification states it: the value in the record, coerced to a
  float, when the key is present, and the default otherwise.
\<close>

definition numeric_field ::
  "(string \<Rightarrow> double option) \<Rightarrow> message \<Rightarrow> string \<Rightarrow> double \<Rightarrow> error + double" where
  "numeric_field float_of_string m k dflt =
     (case m k of None \<Rightarrow> Inr dflt | Some v \<Rightarrow> py_float float_of_string v)"

section \<open>Bit lengths and powers of two\<close>

lemma bit_length_upper: "n < 2 ^ bit_length n"
proof (induction n rule: bit_length.induct)
  case (1 n)
  show ?case
  proof (cases "n = 0")
    case True
    then show ?thesis by (simp add: bit_length.simps)
  next
    case False
    with 1 have "n div 2 < 2 ^ bit_length (n div 2)" by simp
    then have "n < 2 * 2 ^ bit_length (n div 2)" by linarith
    with False show ?thesis by (subst bit_length.simps) simp
  qed
qed

lemma bit_length_lower: "0 < n \<Longrightarrow> 2 ^ bit_length n \<le> 2 * n"
proof (induction n rule: bit_length.induct)
  case (1 n)
  show ?case
  proof (cases "n div 2 = 0")
    case True
    with 1(2) have "n = 1" by linarith
    then show ?thesis by (simp add: bit_length.simps)
  next
    case False
    with 1 have "2 ^ bit_length (n div 2) \<le> 2 * (n div 2)" by simp
    then have "2 * 2 ^ bit_length (n div 2) \<le> 2 * n" by linarith
    with 1(2) show ?thesis by (subst bit_length.simps) simp
  qed
qed

lemma pow_cmp_less:
  fixes n d :: nat and j :: int
  shows "(n * 2 ^ nat (- j) < d * 2 ^ nat j) = (real n < real d * 2 powi j)"
proof (cases "0 \<le> j")
  case True
  then have "2 powi j = (2::real) ^ nat j" by (simp add: power_int_def)
  moreover from True have "nat (- j) = 0" by simp
  moreover have "(real n < real d * 2 ^ nat j) = (real n < real (d * 2 ^ nat j))" by simp
  ultimately show ?thesis by (simp only: of_nat_less_iff power_0 mult_1_right)
next
  case False
  define a where "a = nat (- j)"
  from False have "2 powi j = inverse ((2::real) ^ a)"
    by (simp add: power_int_def a_def power_one_over inverse_eq_divide)
  moreover from False have "nat j = 0" by simp
  moreover have "(real n < real d * inverse (2 ^ a)) = (real n * 2 ^ a < real d)"
    by (simp add: field_simps)
  moreover have "(real n * 2 ^ a < real d) = (real (n * 2 ^ a) < real d)" by simp
  ultimately show ?thesis by (simp only: of_nat_less_iff power_0 mult_1_right a_def)
qed

section \<open>Rounding to a float stays finite below the largest float\<close>

lemma rhe_div_le:
  assumes "0 < d" and "n \<le> K * d"
  shows "rhe_div n d \<le> K"
proof (cases "n div d = K")
  case True
  have "n = d * (n div d) + n mod d" by simp
  with True assms(2) have "n mod d = 0"
    by (metis add_diff_cancel_left' diff_is_0_eq' mult.commute)
  with True assms(1) show ?thesis by (simp add: rhe_div_def Let_def)
next
  case False
  from assms have "n div d \<le> K"
    by (metis div_le_mono nonzero_mult_div_cancel_right less_numeral_extra(3))
  with False have "n div d < K" by simp
  then show ?thesis by (simp add: rhe_div_def Let_def)
qed

lemma floor_log2_upper:
  assumes "0 < n" and "0 < d" and "floor_log2 n d < j"
  shows "n * 2 ^ nat (- j) < d * 2 ^ nat j"
proof -
  define k0 where "k0 = int (bit_length n) - int (bit_length d)"
  have step: "real n < real d * 2 powi (floor_log2 n d + 1)"
  proof (cases "d * 2 ^ nat k0 \<le> n * 2 ^ nat (- k0)")
    case True
    then have fl: "floor_log2 n d = k0" by (simp add: floor_log2_def k0_def Let_def)
    have n_lt: "real n < 2 ^ bit_length n" using bit_length_upper [of n] by simp
    have d_ge: "(2::real) ^ bit_length d \<le> 2 * real d"
      using bit_length_lower [OF assms(2)]
      by (metis of_nat_le_iff of_nat_mult of_nat_numeral of_nat_power)
    have "2 powi (k0 + 1) = (2::real) * 2 ^ bit_length n / 2 ^ bit_length d"
      by (simp add: k0_def power_int_add power_int_diff)
    then have eq: "real d * 2 powi (k0 + 1) = (2 * real d) * 2 ^ bit_length n / 2 ^ bit_length d"
      by simp
    from d_ge have "2 ^ bit_length n * 2 ^ bit_length d \<le> 2 ^ bit_length n * (2 * real d)"
      by (intro mult_left_mono) simp_all
    then have "2 ^ bit_length n \<le> (2 * real d) * 2 ^ bit_length n / 2 ^ bit_length d"
      by (simp add: pos_le_divide_eq mult.commute)
    with eq have "2 ^ bit_length n \<le> real d * 2 powi (k0 + 1)" by simp
    with n_lt have "real n < real d * 2 powi (k0 + 1)" by linarith
    with fl show ?thesis by simp
  next
    case False
    then have fl: "floor_log2 n d = k0 - 1" by (simp add: floor_log2_def k0_def Let_def)
    from False have "n * 2 ^ nat (- k0) < d * 2 ^ nat k0" by simp
    then have "real n < real d * 2 powi k0" by (simp only: pow_cmp_less)
    with fl show ?thesis by simp
  qed
  from assms(3) have "(2::real) powi (floor_log2 n d + 1) \<le> 2 powi j"
    by (intro power_int_increasing) simp_all
  then have "real d * 2 powi (floor_log2 n d + 1) \<le> real d * 2 powi j"
    by (simp add: mult_left_mono)
  with step have "real n < real d * 2 powi j" by linarith
  then show ?thesis by (simp only: pow_cmp_less)
qed

lemma pow_cmp_le:
  fixes n d :: nat and j :: int
  shows "(d * 2 ^ nat j \<le> n * 2 ^ nat (- j)) = (real d * 2 powi j \<le> real n)"
  using pow_cmp_less [of n j d] by (simp only: not_less [symmetric])

lemma floor_log2_lower:
  assumes "0 < n" and "0 < d" and "j \<le> floor_log2 n d"
  shows "d * 2 ^ nat j \<le> n * 2 ^ nat (- j)"
proof -
  define k0 where "k0 = int (bit_length n) - int (bit_length d)"
  have step: "real d * 2 powi (floor_log2 n d) \<le> real n"
  proof (cases "d * 2 ^ nat k0 \<le> n * 2 ^ nat (- k0)")
    case True
    then have fl: "floor_log2 n d = k0" by (simp add: floor_log2_def k0_def Let_def)
    from True have "real d * 2 powi k0 \<le> real n" by (simp only: pow_cmp_le)
    with fl show ?thesis by simp
  next
    case False
    then have fl: "floor_log2 n d = k0 - 1" by (simp add: floor_log2_def k0_def Let_def)
    have d_lt: "real d < 2 ^ bit_length d" using bit_length_upper [of d] by simp
    have n_ge: "(2::real) ^ bit_length n \<le> 2 * real n"
      using bit_length_lower [OF assms(1)]
      by (metis of_nat_le_iff of_nat_mult of_nat_numeral of_nat_power)
    have "2 powi (k0 - 1) = (2::real) ^ bit_length n / (2 ^ bit_length d * 2)"
      by (simp add: k0_def power_int_diff)
    then have eq: "real d * 2 powi (k0 - 1) = real d * 2 ^ bit_length n / (2 ^ bit_length d * 2)"
      by simp
    from d_lt have "real d * 2 ^ bit_length n \<le> 2 ^ bit_length d * 2 ^ bit_length n"
      by (intro mult_right_mono) simp_all
    also from n_ge have "\<dots> \<le> 2 ^ bit_length d * (2 * real n)"
      by (intro mult_left_mono) simp_all
    finally have "real d * 2 ^ bit_length n / (2 ^ bit_length d * 2) \<le> real n"
      by (simp add: pos_divide_le_eq mult.commute mult.left_commute)
    with eq fl show ?thesis by simp
  qed
  from assms(3) have "(2::real) powi j \<le> 2 powi (floor_log2 n d)"
    by (intro power_int_increasing) simp_all
  then have "real d * 2 powi j \<le> real d * 2 powi (floor_log2 n d)"
    by (simp add: mult_left_mono)
  with step have "real d * 2 powi j \<le> real n" by linarith
  then show ?thesis by (simp only: pow_cmp_le)
qed

lemma pow_cmp_le_right:
  fixes n d :: nat and j :: int
  shows "(n * 2 ^ nat (- j) \<le> d * 2 ^ nat j) = (real n \<le> real d * 2 powi j)"
proof (cases "0 \<le> j")
  case True
  then have "2 powi j = (2::real) ^ nat j" by (simp add: power_int_def)
  moreover from True have "nat (- j) = 0" by simp
  moreover have "(real n \<le> real d * 2 ^ nat j) = (real n \<le> real (d * 2 ^ nat j))" by simp
  ultimately show ?thesis by (simp only: of_nat_le_iff power_0 mult_1_right)
next
  case False
  define a where "a = nat (- j)"
  from False have "2 powi j = inverse ((2::real) ^ a)"
    by (simp add: power_int_def a_def power_one_over inverse_eq_divide)
  moreover from False have "nat j = 0" by simp
  moreover have "(real n \<le> real d * inverse (2 ^ a)) = (real n * 2 ^ a \<le> real d)"
    by (simp add: field_simps)
  moreover have "(real n * 2 ^ a \<le> real d) = (real (n * 2 ^ a) \<le> real d)" by simp
  ultimately show ?thesis by (simp only: of_nat_le_iff power_0 mult_1_right a_def)
qed

lemma is_finite_Double_of_nat:
  "a < 2047 \<Longrightarrow> is_finite (Double s (of_nat a) f)"
  by (simp add: is_finite_def biased_def unat_of_nat)

lemma round_to_double_finite:
  assumes d: "0 < d" and le: "n \<le> (2 ^ 53 - 1) * 2 ^ 971 * d"
  shows "is_finite (round_to_double s n d)"
proof (cases "n = 0")
  case True
  then show ?thesis by (simp add: round_to_double_def is_finite_def biased_def)
next
  case False
  then have n: "0 < n" by simp
  define k where "k = floor_log2 n d"
  define e where "e = max (k - 52) (- 1074)"
  define m where "m = rhe_div (n * 2 ^ nat (- e)) (d * 2 ^ nat e)"
  define bits where "bits = nat (e + 1074) * 2 ^ 52 + m"
  have k_le: "k \<le> 1023"
  proof (rule ccontr)
    assume "\<not> k \<le> 1023"
    then have "1024 \<le> floor_log2 n d" by (simp add: k_def)
    from floor_log2_lower [OF n d this] have "d * 2 ^ 1024 \<le> n" by simp
    with le have "d * 2 ^ 1024 \<le> (2 ^ 53 - 1) * 2 ^ 971 * d" by linarith
    with d show False by simp
  qed
  then have e_le: "e \<le> 971" and e_ge: "- 1074 \<le> e" by (simp_all add: e_def)
  have "floor_log2 n d < e + 53" by (simp add: e_def k_def)
  from floor_log2_upper [OF n d this]
  have lt: "real n < real d * 2 powi (e + 53)" by (simp only: pow_cmp_less)
  have eq53: "real d * 2 powi (e + 53) = real (2 ^ 53 * d) * 2 powi e"
    by (simp add: power_int_add)
  from lt have "real n \<le> real (2 ^ 53 * d) * 2 powi e" by (simp only: eq53)
  then have "n * 2 ^ nat (- e) \<le> 2 ^ 53 * d * 2 ^ nat e"
    by (simp only: pow_cmp_le_right)
  then have m_le: "m \<le> 2 ^ 53"
    unfolding m_def using d by (intro rhe_div_le) (simp_all add: mult.assoc)
  have bits_lt: "bits < 2047 * 2 ^ 52"
  proof (cases "e = 971")
    case True
    from le have "n * 2 ^ nat (- e) \<le> (2 ^ 53 - 1) * (d * 2 ^ nat e)"
      by (simp add: True mult.commute mult.left_commute)
    then have "m \<le> 2 ^ 53 - 1"
      unfolding m_def using d by (intro rhe_div_le) simp_all
    then show ?thesis by (simp add: bits_def True)
  next
    case False
    with e_le e_ge have "nat (e + 1074) \<le> 2044" by simp
    then have "nat (e + 1074) * 2 ^ 52 \<le> 2044 * 2 ^ 52" by (rule mult_le_mono1)
    with m_le show ?thesis by (simp add: bits_def)
  qed
  have rd: "round_to_double s n d =
      (if 2047 * 2 ^ 52 \<le> bits then infinity s
       else Double s (of_nat (bits div 2 ^ 52)) (of_nat (bits mod 2 ^ 52)))"
    using False unfolding round_to_double_def Let_def bits_def m_def e_def k_def
    by (simp only: if_False)
  from bits_lt have not_inf: "\<not> 2047 * 2 ^ 52 \<le> bits" by simp
  from bits_lt have "bits div 2 ^ 52 < 2047" by (simp add: less_mult_imp_div_less)
  then have "is_finite (Double s (of_nat (bits div 2 ^ 52)) (of_nat (bits mod 2 ^ 52)))"
    by (rule is_finite_Double_of_nat)
  with not_inf show ?thesis by (simp only: rd if_False)
qed

section \<open>\<^verbatim>\<open>round\<close> never raises\<close>

lemma fraction_less: "fraction x < 2 ^ 52"
  using unsigned_less [of "dfrac x", where ?'a = nat] by (simp add: fraction_def)

lemma mantissa_le: "mantissa x \<le> 2 ^ 53 - 1"
  using fraction_less [of x] by (simp add: mantissa_def)

lemma exponent_le: "is_finite x \<Longrightarrow> exponent x \<le> 971"
  by (simp add: is_finite_def exponent_def)

lemma is_finite_not_inf: "is_finite x \<Longrightarrow> \<not> is_inf x"
  by (simp add: is_finite_def is_inf_def)

lemma float_round_total: "\<exists>r. float_round x ndigits = Inr r"
proof (cases "is_finite x \<and> ndigits \<le> 323")
  case False
  then show ?thesis by (auto simp add: float_round_def)
next
  case True
  define p :: nat where "p = 10 ^ ndigits"
  define n where "n = rhe_div (mantissa x * p * 2 ^ nat (exponent x)) (2 ^ nat (- exponent x))"
  have p: "0 < p" by (simp add: p_def)
  from True have "nat (exponent x) \<le> 971" using exponent_le [of x] by simp
  then have "(2::nat) ^ nat (exponent x) \<le> 2 ^ 971" by (intro power_increasing) simp_all
  with mantissa_le [of x]
  have "mantissa x * p * 2 ^ nat (exponent x) \<le> (2 ^ 53 - 1) * p * 2 ^ 971"
    by (intro mult_le_mono) simp_all
  also have "\<dots> \<le> (2 ^ 53 - 1) * 2 ^ 971 * p * 2 ^ nat (- exponent x)"
    by (simp add: mult.commute mult.left_commute)
  finally have "n \<le> (2 ^ 53 - 1) * 2 ^ 971 * p"
    unfolding n_def by (intro rhe_div_le) simp_all
  with p have "is_finite (round_to_double (dsign x) n p)"
    by (rule round_to_double_finite)
  then have "\<not> is_inf (round_to_double (dsign x) n p)" by (rule is_finite_not_inf)
  with True show ?thesis
    by (simp add: float_round_def Let_def n_def [symmetric] p_def [symmetric])
qed

section \<open>The meaning of rounding and of comparison\<close>

lemma rhe_div_correct:
  assumes "0 < d"
  shows "is_round_half_even (real n / real d) (int (rhe_div n d))"
proof -
  define q where "q = n div d"
  define r where "r = n mod d"
  define t where "t = real r / real d"
  have "n = q * d + r" by (simp add: q_def r_def)
  then have "real n = real q * real d + real r"
    by (metis of_nat_add of_nat_mult)
  with assms have x: "real n / real d = real q + t"
    by (simp add: field_simps t_def)
  have r_lt: "r < d" using assms by (simp add: r_def)
  have t0: "0 \<le> t" by (simp add: t_def)
  consider (low) "2 * r < d" | (high) "d < 2 * r" | (tie) "2 * r = d" by linarith
  then show ?thesis
  proof cases
    case low
    then have "real (2 * r) < real d" by (simp only: of_nat_less_iff)
    then have "t < 1 / 2" using assms by (simp add: field_simps t_def)
    moreover from low have "rhe_div n d = q" by (simp add: rhe_div_def q_def r_def Let_def)
    ultimately show ?thesis using t0 by (simp add: is_round_half_even_def x)
  next
    case high
    then have "real d < real (2 * r)" by (simp only: of_nat_less_iff)
    then have "1 / 2 < t" using assms by (simp add: field_simps t_def)
    moreover from r_lt have "t < 1" using assms by (simp add: field_simps t_def)
    moreover from high have "rhe_div n d = q + 1" by (simp add: rhe_div_def q_def r_def Let_def)
    ultimately show ?thesis by (simp add: is_round_half_even_def x)
  next
    case tie
    then have "real (2 * r) = real d" by (simp only:)
    then have half: "t = 1 / 2" using assms by (simp add: field_simps t_def)
    from tie have "rhe_div n d = (if even q then q else q + 1)"
      by (simp add: rhe_div_def q_def r_def Let_def)
    then show ?thesis by (simp add: is_round_half_even_def x half)
  qed
qed

lemma real_signed_mantissa:
  "real_of_int (signed_mantissa x) = (if dsign x then - 1 else 1) * real (mantissa x)"
  by (simp add: signed_mantissa_def)

lemma scaled_mantissa:
  assumes "e \<le> exponent x"
  shows "real_of_int (signed_mantissa x * 2 ^ nat (exponent x - e)) = float_value x * 2 powi (- e)"
proof -
  from assms have "(2::real) ^ nat (exponent x - e) = 2 powi (exponent x - e)"
    by (simp add: power_int_def)
  also have "\<dots> = 2 powi exponent x * 2 powi (- e)"
    by (simp add: power_int_diff power_int_minus divide_inverse)
  finally show ?thesis
    by (simp add: float_value_def real_signed_mantissa)
qed

lemma float_gt_finite:
  assumes "is_finite x" and "is_finite y"
  shows "float_gt x y \<longleftrightarrow> float_value y < float_value x"
proof -
  define e where "e = min (exponent x) (exponent y)"
  have c: "0 < (2::real) powi (- e)" by simp
  from assms have "float_gt x y \<longleftrightarrow>
      signed_mantissa y * 2 ^ nat (exponent y - e) < signed_mantissa x * 2 ^ nat (exponent x - e)"
    by (simp add: float_gt_def is_finite_def is_nan_def is_inf_def Let_def e_def)
  also have "\<dots> \<longleftrightarrow> real_of_int (signed_mantissa y * 2 ^ nat (exponent y - e))
      < real_of_int (signed_mantissa x * 2 ^ nat (exponent x - e))"
    by (simp only: of_int_less_iff)
  also have "\<dots> \<longleftrightarrow> float_value y * 2 powi (- e) < float_value x * 2 powi (- e)"
    by (simp only: scaled_mantissa e_def min.cobounded1 min.cobounded2)
  also have "\<dots> \<longleftrightarrow> float_value y < float_value x"
    using c by (simp only: mult_less_cancel_right_pos)
  finally show ?thesis .
qed

lemma pow_ratio: "(2::real) ^ nat e / 2 ^ nat (- e) = 2 powi e"
  by (cases "0 \<le> e") (simp_all add: power_int_def power_one_over inverse_eq_divide)

lemma is_round_half_even_minus:
  "is_round_half_even x n \<Longrightarrow> is_round_half_even (- x) (- n)"
  by (simp add: is_round_half_even_def abs_minus_commute)

lemma float_round_half_even:
  assumes fin: "is_finite x" and nd: "ndigits \<le> 323"
  shows "\<exists>n. is_round_half_even (float_value x * 10 ^ ndigits) n
           \<and> float_round x ndigits = Inr (round_to_double (dsign x) (nat \<bar>n\<bar>) (10 ^ ndigits))"
proof -
  define p :: nat where "p = 10 ^ ndigits"
  define a where "a = rhe_div (mantissa x * p * 2 ^ nat (exponent x)) (2 ^ nat (- exponent x))"
  define n where "n = (if dsign x then - int a else int a)"
  have "is_round_half_even
          (real (mantissa x * p * 2 ^ nat (exponent x)) / real (2 ^ nat (- exponent x))) (int a)"
    unfolding a_def by (rule rhe_div_correct) simp
  moreover have "real (mantissa x * p * 2 ^ nat (exponent x)) / real (2 ^ nat (- exponent x))
      = real (mantissa x) * 2 powi exponent x * real p"
    using pow_ratio [of "exponent x"] by (simp add: field_simps)
  ultimately have abs_ok: "is_round_half_even (real (mantissa x) * 2 powi exponent x * real p) (int a)"
    by simp
  have "is_round_half_even (float_value x * real p) n"
  proof (cases "dsign x")
    case True
    with is_round_half_even_minus [OF abs_ok] show ?thesis
      by (simp add: float_value_def n_def)
  next
    case False
    with abs_ok show ?thesis by (simp add: float_value_def n_def)
  qed
  moreover have "nat \<bar>n\<bar> = a" by (simp add: n_def)
  moreover obtain r where "float_round x ndigits = Inr r" using float_round_total by blast
  with fin nd have "float_round x ndigits = Inr (round_to_double (dsign x) a p)"
    by (simp add: float_round_def Let_def a_def [symmetric] p_def [symmetric] split: if_splits)
  ultimately show ?thesis by (auto simp add: p_def)
qed

section \<open>Evaluating the float model\<close>

text \<open>
  The simplifier computes with the model once the recursion of \<open>bit_length\<close> is given
  for numerals.
\<close>

lemma bit_length_0: "bit_length 0 = 0"
  by (simp add: bit_length.simps)

lemma bit_length_1: "bit_length (Suc 0) = Suc 0"
  by (simp add: bit_length.simps)

lemma bit_length_numeral: "bit_length (numeral k) = Suc (bit_length (numeral k div 2))"
  by (subst bit_length.simps) simp

lemmas float_eval = float_literal_def round_to_double_def floor_log2_def rhe_div_def
  bit_length_0 bit_length_1 bit_length_numeral Let_def infinity_def
  float_add_def float_sub_def float_neg_def float_gt_def float_round_def
  is_nan_def is_inf_def is_finite_def mantissa_def exponent_def signed_mantissa_def
  biased_def fraction_def quiet_nan_def int_to_float_def

text \<open>
  The literals of the source, as the bit patterns that CPython holds for them
  (\<^verbatim>\<open>struct.pack(">d", x)\<close>), and the threshold \<^verbatim>\<open>1.5\<close> as a real number.
\<close>

lemma float_literal_bits:
  "float_literal 20 1 = Double False 1024 0"
  "float_literal 5 2 = Double False 1018 2702159776422298"
  "float_literal 4 1 = Double False 1021 2702159776422298"
  "float_literal 15 1 = Double False 1023 2251799813685248"
  "float_literal 165 2 = Double False 1023 2927339757790822"
  by (simp_all add: float_eval)

lemma float_value_threshold: "float_value (float_literal 15 1) = 3 / 2"
  unfolding float_literal_bits
  by (simp add: float_value_def mantissa_def exponent_def biased_def fraction_def)

lemma is_finite_threshold: "is_finite (float_literal 15 1)"
  unfolding float_literal_bits by (simp add: is_finite_def biased_def)

lemma float_gt_threshold:
  "float_gt x (float_literal 15 1) = float_exceeds x (3 / 2)"
proof (cases "is_finite x")
  case True
  then have "\<not> is_nan x" and "\<not> is_inf x" by (simp_all add: is_finite_def is_nan_def is_inf_def)
  with True show ?thesis
    using float_gt_finite [OF True is_finite_threshold]
    by (simp only: float_value_threshold float_exceeds_def if_False simp_thms)
next
  case False
  have "\<not> is_nan (float_literal 15 1)" "\<not> is_inf (float_literal 15 1)"
    using is_finite_threshold by (simp_all add: is_finite_def is_nan_def is_inf_def)
  moreover from False have "is_nan x \<or> is_inf x"
    using unsigned_less [of "dexpo x", where ?'a = nat]
    by (auto simp add: is_finite_def is_nan_def is_inf_def biased_def)
  ultimately show ?thesis
    unfolding float_gt_def float_exceeds_def by auto
qed

section \<open>The scorer, case by case\<close>

lemma py_float_dict_get:
  "py_float sf (dict_get m k (PyFloat dflt)) = numeric_field sf m k dflt"
  by (simp add: dict_get_def numeric_field_def split: option.split)

lemma compute_fundamental_signal_Inr:
  assumes "numeric_field sf m ''eps'' (float_literal 20 1) = Inr eps"
    and "numeric_field sf m ''revenue_growth'' (float_literal 5 2) = Inr revenue_growth"
    and "numeric_field sf m ''debt_to_equity'' (float_literal 4 1) = Inr debt_to_equity"
  shows "\<exists>rounded.
           float_round (float_sub (float_add eps revenue_growth) debt_to_equity) 4 = Inr rounded
         \<and> snd (compute_fundamental_signal sf m) =
             Inr (m ++ [''fundamental_score'' \<mapsto> PyFloat rounded,
                        ''fundamental_signal'' \<mapsto> PyStr
                           (if float_gt (float_sub (float_add eps revenue_growth) debt_to_equity)
                                 (float_literal 15 1)
                            then ''BUY'' else ''HOLD'')])"
proof -
  obtain rounded
    where r: "float_round (float_sub (float_add eps revenue_growth) debt_to_equity) 4 = Inr rounded"
    using float_round_total by blast
  with assms show ?thesis
    by (simp add: compute_fundamental_signal_def py_float_dict_get Let_def)
qed

lemma numeric_field_Inl:
  "numeric_field sf m k dflt = Inl e \<longleftrightarrow> (\<exists>v. m k = Some v \<and> py_float sf v = Inl e)"
  by (simp add: numeric_field_def split: option.split)

lemma compute_fundamental_signal_Inl:
  "numeric_field sf m ''eps'' (float_literal 20 1) = Inl e \<Longrightarrow>
     compute_fundamental_signal sf m = ([], Inl e)"
  "numeric_field sf m ''eps'' (float_literal 20 1) = Inr eps \<Longrightarrow>
   numeric_field sf m ''revenue_growth'' (float_literal 5 2) = Inl e \<Longrightarrow>
     compute_fundamental_signal sf m = ([], Inl e)"
  "numeric_field sf m ''eps'' (float_literal 20 1) = Inr eps \<Longrightarrow>
   numeric_field sf m ''revenue_growth'' (float_literal 5 2) = Inr revenue_growth \<Longrightarrow>
   numeric_field sf m ''debt_to_equity'' (float_literal 4 1) = Inl e \<Longrightarrow>
     compute_fundamental_signal sf m = ([], Inl e)"
  by (simp_all add: compute_fundamental_signal_def py_float_dict_get)

lemma snd_compute_fundamental_signal:
  "snd (compute_fundamental_signal sf m) =
     (case numeric_field sf m ''eps'' (float_literal 20 1) of
        Inl e \<Rightarrow> Inl e
      | Inr eps \<Rightarrow>
     (case numeric_field sf m ''revenue_growth'' (float_literal 5 2) of
        Inl e \<Rightarrow> Inl e
      | Inr revenue_growth \<Rightarrow>
     (case numeric_field sf m ''debt_to_equity'' (float_literal 4 1) of
        Inl e \<Rightarrow> Inl e
      | Inr debt_to_equity \<Rightarrow>
     (case float_round (float_sub (float_add eps revenue_growth) debt_to_equity) 4 of
        Inl e \<Rightarrow> Inl e
      | Inr rounded \<Rightarrow>
          Inr (m ++ [''fundamental_score'' \<mapsto> PyFloat rounded,
                     ''fundamental_signal'' \<mapsto> PyStr
                        (if float_gt (float_sub (float_add eps revenue_growth) debt_to_equity)
                              (float_literal 15 1)
                         then ''BUY'' else ''HOLD'')])))))"
  by (simp add: compute_fundamental_signal_def py_float_dict_get Let_def split: sum.splits)

lemma compute_fundamental_signal_InrD:
  assumes "snd (compute_fundamental_signal sf m) = Inr out"
  shows "\<exists>eps revenue_growth debt_to_equity rounded.
           numeric_field sf m ''eps'' (float_literal 20 1) = Inr eps
         \<and> numeric_field sf m ''revenue_growth'' (float_literal 5 2) = Inr revenue_growth
         \<and> numeric_field sf m ''debt_to_equity'' (float_literal 4 1) = Inr debt_to_equity
         \<and> float_round (float_sub (float_add eps revenue_growth) debt_to_equity) 4 = Inr rounded
         \<and> out = m ++ [''fundamental_score'' \<mapsto> PyFloat rounded,
                        ''fundamental_signal'' \<mapsto> PyStr
                           (if float_gt (float_sub (float_add eps revenue_growth) debt_to_equity)
                                 (float_literal 15 1)
                            then ''BUY'' else ''HOLD'')]"
  using assms unfolding snd_compute_fundamental_signal
  by (auto split: sum.splits)

section \<open>Properties of the validator\<close>

text \<open>
  C4. For every raw record and every schema predicate, the validator fails exactly
  when the predicate returns false: it then raises the invalid-input error
  (\<^verbatim>\<open>ValueError("Invalid message format")\<close>) and returns no record. When the
  predicate returns true it returns the input record itself.
\<close>

theorem validate_input_message_gate:
  "(snd (validate_input_message schema m) = Inl (ValueError ''Invalid message format'')
      \<longleftrightarrow> \<not> schema m)
   \<and> (snd (validate_input_message schema m) = Inr m \<longleftrightarrow> schema m)
   \<and> (\<forall>out. snd (validate_input_message schema m) = Inr out \<longrightarrow> out = m)
   \<and> (\<forall>e. snd (validate_input_message schema m) = Inl e \<longrightarrow> \<not> schema m)"
  by (simp add: validate_input_message_def Let_def)

theorem validate_input_message_gate_witness:
  "snd (validate_input_message (\<lambda>m. m ''eps'' \<noteq> None) Map.empty)
     = Inl (ValueError ''Invalid message format'')
   \<and> snd (validate_input_message (\<lambda>m. m ''eps'' \<noteq> None) [''eps'' \<mapsto> PyInt 3])
     = Inr [''eps'' \<mapsto> PyInt 3]"
  using validate_input_message_gate [of "\<lambda>m. m ''eps'' \<noteq> None" Map.empty]
    validate_input_message_gate [of "\<lambda>m. m ''eps'' \<noteq> None" "[''eps'' \<mapsto> PyInt 3]"]
  by simp

end
